theory Spec2Isabelle
  imports Main "HOL-Library.Word"
begin

section \<open>Data model\<close>

text \<open>
  The class \<^verbatim>\<open>RequestToProxyStream\<close> (file \<^verbatim>\<open>lib/RequestProxyStream.js\<close>) extends
  Node's \<^verbatim>\<open>Readable\<close> and is fed by the \<^verbatim>\<open>onData\<close> callback of a uWebSockets.js response.

  A chunk handed to \<^verbatim>\<open>onData\<close> is an \<^verbatim>\<open>ArrayBuffer\<close> owned by the source. It is modelled
  as an address into the source's memory, a store from addresses to byte sequences which
  the source may overwrite between two callbacks. \<^verbatim>\<open>Buffer.from(arrayBuffer)\<close> makes a view
  on the same memory, so the view is the same address; a buffer made by
  \<^verbatim>\<open>Buffer.alloc\<close> is owned by the stream and modelled as a byte sequence value.

  The base class and the consumer behind it are the environment. Of \<^verbatim>\<open>push\<close> the model
  keeps what the class can see, the boolean returned, which the consumer chooses freely;
  of \<^verbatim>\<open>destroy\<close> it keeps that the first call sets the destroyed flag and runs
  \<^verbatim>\<open>_destroy\<close> and that later calls do nothing. The callback, \<^verbatim>\<open>_read\<close> and
  \<^verbatim>\<open>destroy\<close> each run to completion, in any order.
\<close>

type_synonym byte = "8 word"
type_synonym bytes = "byte list"
type_synonym addr = nat

datatype error = Max_Backpressure | Other_Error string

text \<open>
  The calls the class makes on its base class, in the order they are made:
  \<^verbatim>\<open>this.push(buffer)\<close> with the boolean it returned, \<^verbatim>\<open>this.push(null)\<close>, and
  \<^verbatim>\<open>this.destroy(error?)\<close>.
\<close>

datatype call = Push bytes bool | Push_Null | Destroy "error option"

text \<open>
  The private fields \<^verbatim>\<open>#sendQueue\<close>, \<^verbatim>\<open>#shouldClose\<close>, \<^verbatim>\<open>#maxStackedBuffers\<close>; the
  \<^verbatim>\<open>destroyed\<close> flag of the base class; the calls made so far; the source's memory.
\<close>

record state =
  sendQueue :: "addr list"
  shouldClose :: bool
  maxStackedBuffers :: int
  destroyed :: bool
  calls :: "call list"
  memory :: "addr \<Rightarrow> bytes"

text \<open>
  The consumer decides what each \<^verbatim>\<open>push\<close> of a buffer returns: \<open>env n\<close> is the
  boolean returned by the call whose position in the list of calls is \<open>n\<close>.
\<close>

type_synonym env = "nat \<Rightarrow> bool"

section \<open>Operations\<close>

text \<open>\<^verbatim>\<open>config.maxStackedBuffers || 25\<close>: an absent option and the number 0 are falsy.\<close>

definition falsy :: "int option \<Rightarrow> bool" where
  "falsy v = (case v of None \<Rightarrow> True | Some n \<Rightarrow> n = 0)"

definition or_default :: "int option \<Rightarrow> int \<Rightarrow> int" where
  "or_default v d = (if falsy v then d else the v)"

definition constructor :: "(addr \<Rightarrow> bytes) \<Rightarrow> int option \<Rightarrow> state" where
  "constructor res config =
     \<lparr> sendQueue = [], shouldClose = False,
       maxStackedBuffers = or_default config 25,
       destroyed = False, calls = [], memory = res \<rparr>"

text \<open>\<^verbatim>\<open>Buffer.from(chunk)\<close> on an \<^verbatim>\<open>ArrayBuffer\<close>: a view sharing the chunk's memory.\<close>

definition Buffer_from :: "addr \<Rightarrow> addr" where
  "Buffer_from chunk = chunk"

definition byteLength :: "state \<Rightarrow> addr \<Rightarrow> nat" where
  "byteLength s buffer = length (memory s buffer)"

text \<open>\<^verbatim>\<open>Buffer.alloc(n)\<close> is zero-filled; \<^verbatim>\<open>src.copy(dst)\<close> overwrites the start of \<open>dst\<close>.\<close>

definition Buffer_alloc :: "nat \<Rightarrow> bytes" where
  "Buffer_alloc n = replicate n 0"

definition Buffer_copy :: "bytes \<Rightarrow> bytes \<Rightarrow> bytes" where
  "Buffer_copy src dst = take (length dst) src @ drop (length src) dst"

definition createBufferCopy :: "state \<Rightarrow> addr \<Rightarrow> bytes" where
  "createBufferCopy s buffer =
     (let copy = Buffer_alloc (byteLength s buffer) in Buffer_copy (memory s buffer) copy)"

text \<open>
  \<^verbatim>\<open>this.push(buffer)\<close>: the call is recorded with the boolean the consumer returns.
  \<^verbatim>\<open>this.push(null)\<close>: the call is recorded; its result is not used by the class.
\<close>

definition push :: "env \<Rightarrow> bytes \<Rightarrow> state \<Rightarrow> bool \<times> state" where
  "push env chunk s =
     (let r = env (length (calls s)) in (r, s\<lparr>calls := calls s @ [Push chunk r]\<rparr>))"

definition push_null :: "state \<Rightarrow> state" where
  "push_null s = s\<lparr>calls := calls s @ [Push_Null]\<rparr>"

text \<open>\<^verbatim>\<open>_destroy(error, callback)\<close>: empties the queue.\<close>

definition destroy_hook :: "state \<Rightarrow> state" where
  "destroy_hook s = s\<lparr>sendQueue := []\<rparr>"

text \<open>
  \<^verbatim>\<open>this.destroy(error?)\<close> of the base class: the first call marks the stream destroyed
  and runs \<^verbatim>\<open>_destroy\<close>; a later call has no effect.
\<close>

definition destroy :: "error option \<Rightarrow> state \<Rightarrow> state" where
  "destroy err s =
     (let s1 = s\<lparr>calls := calls s @ [Destroy err]\<rparr>
      in if destroyed s1 then s1 else destroy_hook (s1\<lparr>destroyed := True\<rparr>))"

definition close :: "state \<Rightarrow> state" where
  "close s = destroy None (push_null s)"

definition tryEnd :: "state \<Rightarrow> state" where
  "tryEnd s =
     (let s1 = s\<lparr>shouldClose := True\<rparr>
      in if length (sendQueue s1) = 0 then close s1 else s1)"

definition trySendChunk :: "env \<Rightarrow> addr \<Rightarrow> state \<Rightarrow> bool \<times> state" where
  "trySendChunk env buffer s =
     (if byteLength s buffer = 0 then (True, tryEnd s)
      else
        (let (ok, s1) = push env (createBufferCopy s buffer) s
         in if \<not> ok then
              (if int (length (sendQueue s1)) = maxStackedBuffers s1
               then (False, destroy (Some Max_Backpressure) s1)
               else (False, s1\<lparr>sendQueue := sendQueue s1 @ [buffer]\<rparr>))
            else (True, s1)))"

text \<open>The callback registered with \<^verbatim>\<open>res.onData\<close>.\<close>

definition onData :: "env \<Rightarrow> addr \<Rightarrow> bool \<Rightarrow> state \<Rightarrow> state" where
  "onData env chunk isLast s =
     (let s1 = snd (trySendChunk env (Buffer_from chunk) s)
      in if isLast then tryEnd s1 else s1)"

text \<open>
  The loop of \<^verbatim>\<open>_read\<close>: while the queue is not empty and sending its head succeeds,
  \<^verbatim>\<open>splice(0, 1)\<close> removes the head.
\<close>

function read_loop :: "env \<Rightarrow> state \<Rightarrow> state" where
  "read_loop env s =
     (if length (sendQueue s) > 0 then
        (let r = trySendChunk env (sendQueue s ! 0) s
         in if fst r then read_loop env ((snd r)\<lparr>sendQueue := drop 1 (sendQueue (snd r))\<rparr>)
            else snd r)
      else s)"
  by pat_completeness auto
termination
proof (relation "measure (\<lambda>(env, s). length (sendQueue s))")
  show "wf (measure (\<lambda>(env, s). length (sendQueue s)))" by simp
next
  fix env :: env and s :: state and r
  assume nonempty: "0 < length (sendQueue s)"
    and r: "r = trySendChunk env (sendQueue s ! 0) s" and ok: "fst r"
  have "sendQueue (snd r) = sendQueue s"
    using nonempty ok unfolding r
    by (simp add: trySendChunk_def tryEnd_def push_def Let_def split: if_splits)
  with nonempty
  show "((env, (snd r)\<lparr>sendQueue := drop 1 (sendQueue (snd r))\<rparr>), (env, s))
        \<in> measure (\<lambda>(env, s). length (sendQueue s))"
    by simp
qed

declare read_loop.simps [simp del]

text \<open>\<^verbatim>\<open>_read(n)\<close>: the loop, then the close if the flag is set and the queue empty.\<close>

definition read_hook :: "env \<Rightarrow> state \<Rightarrow> state" where
  "read_hook env s =
     (let s1 = read_loop env s
      in if shouldClose s1 \<and> length (sendQueue s1) = 0 then close s1 else s1)"

section \<open>Executions\<close>

text \<open>
  What can happen to a stream between two callbacks: the source overwrites (or, with the
  empty sequence, invalidates) one of its buffers, the source delivers a chunk, the pull
  interface asks for data (\<^verbatim>\<open>_read\<close>), or the consumer destroys the stream.
\<close>

datatype input =
    Source_Write addr bytes
  | On_Data addr bool
  | Read
  | Destroy_Request "error option"

fun step :: "env \<Rightarrow> input \<Rightarrow> state \<Rightarrow> state" where
  "step env (Source_Write a bs) s = s\<lparr>memory := (memory s)(a := bs)\<rparr>"
| "step env (On_Data chunk isLast) s = onData env chunk isLast s"
| "step env Read s = read_hook env s"
| "step env (Destroy_Request err) s = destroy err s"

definition run :: "env \<Rightarrow> input list \<Rightarrow> state \<Rightarrow> state" where
  "run env ins s = foldl (\<lambda>s i. step env i s) s ins"

inductive reachable :: "state \<Rightarrow> bool" where
  init: "reachable (constructor res config)"
| step: "reachable s \<Longrightarrow> reachable (step env i s)"

text \<open>
  Observations on the list of calls: the number of \<^verbatim>\<open>push(null)\<close> calls, the number of
  \<^verbatim>\<open>destroy\<close> calls carrying the overflow error, every buffer handed to \<^verbatim>\<open>push\<close>
  (what the consumer holds if a refused push still buffers its argument, as Node's
  \<^verbatim>\<open>Readable\<close> does at its high-water mark), and the buffers whose \<^verbatim>\<open>push\<close> returned
  \<^verbatim>\<open>true\<close> (what the consumer holds if a refused push delivers nothing).
\<close>

definition eofs :: "call list \<Rightarrow> nat" where
  "eofs cs = count_list cs Push_Null"

definition overflows :: "call list \<Rightarrow> nat" where
  "overflows cs = count_list cs (Destroy (Some Max_Backpressure))"

fun pushed :: "call list \<Rightarrow> bytes list" where
  "pushed [] = []"
| "pushed (Push b r # cs) = b # pushed cs"
| "pushed (c # cs) = pushed cs"

fun accepted :: "call list \<Rightarrow> bytes list" where
  "accepted [] = []"
| "accepted (Push b r # cs) = (if r then b # accepted cs else accepted cs)"
| "accepted (c # cs) = accepted cs"

text \<open>
  The bytes the source fed in: the contents of each delivered chunk at the time of its
  callback, in arrival order.
\<close>

fun fed :: "(addr \<Rightarrow> bytes) \<Rightarrow> input list \<Rightarrow> bytes list" where
  "fed mem [] = []"
| "fed mem (Source_Write a bs # ins) = fed (mem(a := bs)) ins"
| "fed mem (On_Data chunk isLast # ins) = mem chunk # fed mem ins"
| "fed mem (i # ins) = fed mem ins"


section \<open>Example executions\<close>

text \<open>
  Consumers that accept every push, refuse every push, accept from a given call on, or
  accept the call at position 2 and every call from position 4 on; a source memory
  without data and one whose every buffer holds four bytes; four chunks of four bytes;
  the inputs that write chunks into the source's buffers and deliver the first two.
\<close>

definition always_ready :: env where
  "always_ready n = True"

definition never_ready :: env where
  "never_ready n = False"

definition ready_from :: "nat \<Rightarrow> env" where
  "ready_from k n = (k \<le> n)"

definition no_data :: "addr \<Rightarrow> bytes" where
  "no_data a = []"

definition chunk_A :: bytes where "chunk_A = [65, 65, 65, 65]"
definition chunk_B :: bytes where "chunk_B = [66, 66, 66, 66]"
definition chunk_C :: bytes where "chunk_C = [67, 67, 67, 67]"
definition chunk_D :: bytes where "chunk_D = [68, 68, 68, 68]"

definition resend_env :: env where
  "resend_env n = (n = 2 \<or> 4 \<le> n)"

definition two_queued :: "input list" where
  "two_queued = [Source_Write 0 chunk_A, Source_Write 1 chunk_B, On_Data 0 False, On_Data 1 False]"

definition four_chunks :: "input list" where
  "four_chunks = [Source_Write 0 chunk_A, Source_Write 1 chunk_B, Source_Write 2 chunk_C,
                  Source_Write 3 chunk_D]"

definition filled :: "addr \<Rightarrow> bytes" where
  "filled a = chunk_A"

section \<open>Basic facts\<close>

lemma createBufferCopy_eq [simp]: "createBufferCopy s b = memory s b"
  by (simp add: createBufferCopy_def Buffer_alloc_def Buffer_copy_def byteLength_def)

lemma destroy_fields [simp]:
  "sendQueue (destroy e s) = (if destroyed s then sendQueue s else [])"
  "destroyed (destroy e s)"
  "calls (destroy e s) = calls s @ [Destroy e]"
  "shouldClose (destroy e s) = shouldClose s"
  "maxStackedBuffers (destroy e s) = maxStackedBuffers s"
  "memory (destroy e s) = memory s"
  by (simp_all add: destroy_def destroy_hook_def Let_def)

lemma close_fields [simp]:
  "sendQueue (close s) = (if destroyed s then sendQueue s else [])"
  "destroyed (close s)"
  "calls (close s) = calls s @ [Push_Null, Destroy None]"
  "shouldClose (close s) = shouldClose s"
  "maxStackedBuffers (close s) = maxStackedBuffers s"
  "memory (close s) = memory s"
  by (simp_all add: close_def push_null_def)

lemma tryEnd_fields [simp]:
  "sendQueue (tryEnd s) = (if destroyed s then sendQueue s else if sendQueue s = [] then [] else sendQueue s)"
  "shouldClose (tryEnd s)"
  "calls (tryEnd s) = (if sendQueue s = [] then calls s @ [Push_Null, Destroy None] else calls s)"
  "destroyed (tryEnd s) = (destroyed s \<or> sendQueue s = [])"
  "maxStackedBuffers (tryEnd s) = maxStackedBuffers s"
  "memory (tryEnd s) = memory s"
  by (simp_all add: tryEnd_def Let_def)

lemma trySendChunk_eq:
  "trySendChunk env b s =
     (if memory s b = [] then (True, tryEnd s)
      else if env (length (calls s))
        then (True, s\<lparr>calls := calls s @ [Push (memory s b) True]\<rparr>)
      else if int (length (sendQueue s)) = maxStackedBuffers s
        then (False, destroy (Some Max_Backpressure) (s\<lparr>calls := calls s @ [Push (memory s b) False]\<rparr>))
      else (False, s\<lparr>calls := calls s @ [Push (memory s b) False], sendQueue := sendQueue s @ [b]\<rparr>))"
  by (simp add: trySendChunk_def byteLength_def push_def Let_def)

lemma read_loop_unfold_continue:
  "0 < length (sendQueue s) \<Longrightarrow> fst (trySendChunk env (sendQueue s ! 0) s) \<Longrightarrow>
   read_loop env s =
     read_loop env ((snd (trySendChunk env (sendQueue s ! 0) s))
       \<lparr>sendQueue := drop 1 (sendQueue (snd (trySendChunk env (sendQueue s ! 0) s)))\<rparr>)"
  by (subst read_loop.simps [of env s]) (simp add: Let_def)

lemma read_loop_unfold_stop:
  "0 < length (sendQueue s) \<Longrightarrow> \<not> fst (trySendChunk env (sendQueue s ! 0) s) \<Longrightarrow>
   read_loop env s = snd (trySendChunk env (sendQueue s ! 0) s)"
  by (subst read_loop.simps [of env s]) (simp add: Let_def)

lemma read_loop_unfold_empty:
  "sendQueue s = [] \<Longrightarrow> read_loop env s = s"
  by (subst read_loop.simps [of env s]) simp

lemma read_loop_preserves:
  assumes send: "\<And>env s. P s \<Longrightarrow> sendQueue s \<noteq> [] \<Longrightarrow>
                  P (snd (trySendChunk env (sendQueue s ! 0) s))"
    and splice: "\<And>s. P s \<Longrightarrow> P (s\<lparr>sendQueue := drop 1 (sendQueue s)\<rparr>)"
    and start: "P s"
  shows "P (read_loop env s)"
  using start
proof (induction env s rule: read_loop.induct)
  case (1 env s)
  let ?r = "trySendChunk env (sendQueue s ! 0) s"
  let ?s' = "(snd ?r)\<lparr>sendQueue := drop 1 (sendQueue (snd ?r))\<rparr>"
  have sent: "sendQueue s \<noteq> [] \<Longrightarrow> P (snd ?r)" using "1.prems" by (rule send)
  consider (empty) "sendQueue s = []"
    | (stop) "0 < length (sendQueue s)" "\<not> fst ?r"
    | (continue) "0 < length (sendQueue s)" "fst ?r"
    by auto
  then show ?case
  proof cases
    case empty
    then show ?thesis using "1.prems" by (simp add: read_loop_unfold_empty)
  next
    case stop
    then show ?thesis using sent by (simp add: read_loop_unfold_stop)
  next
    case continue
    then have "P (snd ?r)" using sent by auto
    then have "P ?s'" by (rule splice)
    then have "P (read_loop env ?s')"
      using continue by (rule "1.IH" [OF _ refl, rotated 2])
    then show ?thesis using continue by (simp add: read_loop_unfold_continue)
  qed
qed

lemma step_preserves:
  assumes send: "\<And>env b s. P s \<Longrightarrow> P (snd (trySendChunk env b s))"
    and splice: "\<And>s. P s \<Longrightarrow> P (s\<lparr>sendQueue := drop 1 (sendQueue s)\<rparr>)"
    and "end": "\<And>s. P s \<Longrightarrow> P (tryEnd s)"
    and cl: "\<And>s. P s \<Longrightarrow> shouldClose s \<Longrightarrow> sendQueue s = [] \<Longrightarrow> P (close s)"
    and wr: "\<And>s a bs. P s \<Longrightarrow> P (s\<lparr>memory := (memory s)(a := bs)\<rparr>)"
    and de: "\<And>s e. P s \<Longrightarrow> P (destroy e s)"
    and start: "P s"
  shows "P (step env i s)"
proof (cases i)
  case (Source_Write a bs)
  then show ?thesis using wr start by simp
next
  case (On_Data chunk isLast)
  have "P (snd (trySendChunk env (Buffer_from chunk) s))" using send start by blast
  then show ?thesis using On_Data "end" by (simp add: onData_def Let_def)
next
  case Read
  have "P (read_loop env s)"
  proof (rule read_loop_preserves)
    show "P (snd (trySendChunk env' (sendQueue s' ! 0) s'))" if "P s'" for env' s'
      using that by (rule send)
  qed (fact splice start)+
  then show ?thesis using Read cl by (simp add: read_hook_def Let_def)
next
  case (Destroy_Request e)
  then show ?thesis using de start by simp
qed

lemma reachable_invariant:
  assumes "reachable s"
    and "\<And>res config. P (constructor res config)"
    and "\<And>env i s. P s \<Longrightarrow> P (step env i s)"
  shows "P s"
  using assms by (induction rule: reachable.induct) auto

lemma reachable_run: "reachable s \<Longrightarrow> reachable (run env ins s)"
  unfolding run_def
  by (induction ins arbitrary: s) (auto intro: reachable.step)

lemma pushed_append [simp]: "pushed (cs @ ds) = pushed cs @ pushed ds"
  by (induction cs rule: pushed.induct) simp_all

lemma accepted_append [simp]: "accepted (cs @ ds) = accepted cs @ accepted ds"
  by (induction cs rule: accepted.induct) simp_all

lemma eofs_append [simp]: "eofs (cs @ ds) = eofs cs + eofs ds"
  by (induction cs) (simp_all add: eofs_def)

lemma overflows_append [simp]: "overflows (cs @ ds) = overflows cs + overflows ds"
  by (induction cs) (simp_all add: overflows_def)

lemma eofs_simps [simp]:
  "eofs [] = 0" "eofs (Push b r # cs) = eofs cs" "eofs (Push_Null # cs) = Suc (eofs cs)"
  "eofs (Destroy e # cs) = eofs cs"
  by (simp_all add: eofs_def)

lemma overflows_simps [simp]:
  "overflows [] = 0" "overflows (Push b r # cs) = overflows cs"
  "overflows (Push_Null # cs) = overflows cs"
  "overflows (Destroy e # cs) = (if e = Some Max_Backpressure then Suc (overflows cs) else overflows cs)"
  by (simp_all add: overflows_def)





lemma step_destroyed: "destroyed s \<Longrightarrow> destroyed (step env i s)"
  by (rule step_preserves [where P = destroyed, rotated -1]) (simp_all add: trySendChunk_eq)

lemma run_Nil [simp]: "run env [] s = s"
  by (simp add: run_def)

lemma run_snoc [simp]: "run env (ins @ [i]) s = step env i (run env ins s)"
  by (simp add: run_def)

lemma overflows_map_Push [simp]: "overflows (map (\<lambda>(a, fin). Push (f a) r) chunks) = 0"
  by (induction chunks) (auto simp add: overflows_def)

lemma accepted_map_refused [simp]: "accepted (map (\<lambda>(a, fin). Push (f a) False) chunks) = []"
  by (induction chunks) auto

lemma feed_refused:
  assumes never: "\<And>n. \<not> env n"
    and threshold: "maxStackedBuffers s0 = int k"
    and fresh: "sendQueue s0 = []" "\<not> destroyed s0"
    and few: "length chunks \<le> k"
    and nonempty: "\<forall>c\<in>set chunks. memory s0 (fst c) \<noteq> []"
  shows "sendQueue (run env (map (\<lambda>(a, fin). On_Data a fin) chunks) s0) = map fst chunks
    \<and> \<not> destroyed (run env (map (\<lambda>(a, fin). On_Data a fin) chunks) s0)
    \<and> maxStackedBuffers (run env (map (\<lambda>(a, fin). On_Data a fin) chunks) s0) = int k
    \<and> memory (run env (map (\<lambda>(a, fin). On_Data a fin) chunks) s0) = memory s0
    \<and> calls (run env (map (\<lambda>(a, fin). On_Data a fin) chunks) s0) =
        calls s0 @ map (\<lambda>(a, fin). Push (memory s0 a) False) chunks"
  using few nonempty
proof (induction chunks rule: rev_induct)
  case Nil
  then show ?case using threshold fresh by simp
next
  case (snoc c chunks)
  let ?s = "run env (map (\<lambda>(a, fin). On_Data a fin) chunks) s0"
  obtain a fin where c: "c = (a, fin)" by (cases c)
  have IH: "sendQueue ?s = map fst chunks" "\<not> destroyed ?s" "maxStackedBuffers ?s = int k"
    "memory ?s = memory s0"
    "calls ?s = calls s0 @ map (\<lambda>(a, fin). Push (memory s0 a) False) chunks"
    using snoc by simp_all
  have room: "int (length (sendQueue ?s)) \<noteq> maxStackedBuffers ?s"
    using snoc.prems IH by simp
  have bytes: "memory ?s a \<noteq> []" using snoc.prems IH c by simp
  have send: "trySendChunk env a ?s =
      (False, ?s\<lparr>calls := calls ?s @ [Push (memory ?s a) False], sendQueue := sendQueue ?s @ [a]\<rparr>)"
    using room bytes never by (simp add: trySendChunk_eq)
  show ?case
    using IH by (simp add: c onData_def Buffer_from_def send Let_def)
qed

lemma threshold_not_zero: "maxStackedBuffers (constructor res config) \<noteq> 0"
  by (auto simp add: constructor_def or_default_def falsy_def split: option.splits)

lemma overflow_state:
  assumes never: "\<And>n. \<not> env n"
    and threshold: "maxStackedBuffers (constructor res config) = int k"
    and count: "length chunks = Suc k"
    and nonempty: "\<forall>c\<in>set chunks. res (fst c) \<noteq> []"
  shows "destroyed (run env (map (\<lambda>(a, fin). On_Data a fin) chunks) (constructor res config))
    \<and> sendQueue (run env (map (\<lambda>(a, fin). On_Data a fin) chunks) (constructor res config)) = []
    \<and> overflows (calls (run env (map (\<lambda>(a, fin). On_Data a fin) chunks) (constructor res config))) = 1
    \<and> accepted (calls (run env (map (\<lambda>(a, fin). On_Data a fin) chunks) (constructor res config))) = []
    \<and> memory (run env (map (\<lambda>(a, fin). On_Data a fin) chunks) (constructor res config)) = res
    \<and> maxStackedBuffers (run env (map (\<lambda>(a, fin). On_Data a fin) chunks) (constructor res config))
        = int k"
proof -
  let ?init = "constructor res config"
  from count obtain first c where split: "chunks = first @ [c]" and len: "length first = k"
    by (cases chunks rule: rev_cases) auto
  obtain a fin where c: "c = (a, fin)" by (cases c)
  let ?mid = "run env (map (\<lambda>(a, fin). On_Data a fin) first) ?init"
  have mem0: "memory ?init = res" by (simp add: constructor_def)
  have before: "sendQueue ?mid = map fst first \<and> \<not> destroyed ?mid \<and> maxStackedBuffers ?mid = int k
      \<and> memory ?mid = memory ?init
      \<and> calls ?mid = calls ?init @ map (\<lambda>(a, fin). Push (memory ?init a) False) first"
  proof (rule feed_refused [OF never])
    show "maxStackedBuffers ?init = int k" by (rule threshold)
    show "sendQueue ?init = []" "\<not> destroyed ?init" by (simp_all add: constructor_def)
    show "length first \<le> k" using len by simp
    show "\<forall>c\<in>set first. memory ?init (fst c) \<noteq> []" using nonempty split mem0 by simp
  qed
  have full: "int (length (sendQueue ?mid)) = maxStackedBuffers ?mid" using before len by simp
  have bytes: "memory ?mid a \<noteq> []" using nonempty split c before mem0 by simp
  have send: "trySendChunk env a ?mid =
      (False, destroy (Some Max_Backpressure) (?mid\<lparr>calls := calls ?mid @ [Push (memory ?mid a) False]\<rparr>))"
    using full bytes never by (simp add: trySendChunk_eq)
  have calls0: "calls ?init = []" by (simp add: constructor_def)
  have final: "run env (map (\<lambda>(a, fin). On_Data a fin) chunks) ?init = onData env a fin ?mid"
    by (simp add: split c)
  show ?thesis
    unfolding final using before calls0 mem0
    by (simp add: onData_def Buffer_from_def send Let_def)
qed



lemma accepted_map_True [simp]: "accepted (map (\<lambda>a. Push (f a) True) q) = map f q"
  by (induction q) simp_all

section \<open>The claims\<close>

subsection \<open>C1: order and fidelity of the delivered bytes\<close>

text \<open>
  Claim C1 says that, as long as the queue never overflows, the bytes delivered to the
  consumer are the bytes fed in, in arrival order, without duplication or loss, also
  when chunks are queued and sent again by \<^verbatim>\<open>_read\<close>. The code does otherwise. With
  the default threshold, chunks A and B arrive while the consumer refuses; a first
  \<^verbatim>\<open>_read\<close> sends A and has B refused, a second one is accepted throughout. B is then
  accepted twice: \<^verbatim>\<open>#trySendChunk\<close>, used by \<^verbatim>\<open>_read\<close> to send the head of the queue
  again, appends the refused head to the queue a second time. The stream is not
  destroyed and no overflow is raised. In the last two conjuncts A is refused and B,
  arriving next, is accepted at once although A is still queued: the consumer gets B
  before A.
\<close>

theorem resent_chunks_delivered_twice_and_out_of_order:
  "fed no_data (two_queued @ [Read, Read]) = [chunk_A, chunk_B]
   \<and> accepted (calls (run resend_env (two_queued @ [Read, Read]) (constructor no_data None)))
       = [chunk_A, chunk_B, chunk_B]
   \<and> pushed (calls (run resend_env (two_queued @ [Read, Read]) (constructor no_data None)))
       = [chunk_A, chunk_B, chunk_A, chunk_B, chunk_B, chunk_B]
   \<and> \<not> destroyed (run resend_env (two_queued @ [Read, Read]) (constructor no_data None))
   \<and> overflows (calls (run resend_env (two_queued @ [Read, Read]) (constructor no_data None))) = 0
   \<and> sendQueue (run resend_env (two_queued @ [Read, Read]) (constructor no_data None)) = []
   \<and> concat (accepted (calls (run resend_env (two_queued @ [Read, Read]) (constructor no_data None))))
       \<noteq> concat (fed no_data (two_queued @ [Read, Read]))
   \<and> concat (pushed (calls (run resend_env (two_queued @ [Read, Read]) (constructor no_data None))))
       \<noteq> concat (fed no_data (two_queued @ [Read, Read]))
   \<and> accepted (calls (run (ready_from 1) (two_queued @ [Read]) (constructor no_data None)))
       = [chunk_B, chunk_A]
   \<and> \<not> destroyed (run (ready_from 1) (two_queued @ [Read]) (constructor no_data None))"
  by code_simp

subsection \<open>C2: what a drain request leaves in the queue\<close>

text \<open>
  Claim C2 says that \<^verbatim>\<open>_read\<close> stops at the first failed attempt with the failed head
  still at the front of the queue and the rest of the queue unchanged. In the code the
  failed attempt changes the queue: with A and B queued, A accepted and B refused, the
  queue after \<^verbatim>\<open>_read\<close> holds B twice; and with a threshold of 2 and a queue that is
  full, a refused head destroys the stream and empties the queue.
\<close>

theorem failed_resend_appends_head_again:
  "sendQueue (run resend_env two_queued (constructor no_data None)) = [0, 1]
   \<and> sendQueue (run resend_env (two_queued @ [Read]) (constructor no_data None)) = [1, 1]
   \<and> sendQueue (run resend_env (two_queued @ [Read]) (constructor no_data None)) \<noteq> [1]
   \<and> accepted (calls (run resend_env (two_queued @ [Read]) (constructor no_data None))) = [chunk_A]
   \<and> sendQueue (run never_ready two_queued (constructor no_data (Some 2))) = [0, 1]
   \<and> sendQueue (run never_ready (two_queued @ [Read]) (constructor no_data (Some 2))) = []
   \<and> destroyed (run never_ready (two_queued @ [Read]) (constructor no_data (Some 2)))"
  by code_simp

subsection \<open>C3: the pending queue is bounded\<close>

text \<open>
  Claim C3. In every reachable state the length of the pending queue is at most
  \<^verbatim>\<open>maxStackedBuffers\<close> (for a threshold that is not negative, as the configuration
  documents); and when a non-empty chunk is refused by the consumer while the queue
  already holds \<^verbatim>\<open>maxStackedBuffers\<close> chunks, \<^verbatim>\<open>#trySendChunk\<close> does not enqueue it:
  it calls \<^verbatim>\<open>destroy\<close> with the error, the stream is destroyed, and the queue is
  emptied by the first destruction.
\<close>

theorem queue_never_exceeds_threshold:
  "(reachable s \<and> 0 \<le> maxStackedBuffers s \<longrightarrow>
      int (length (sendQueue s)) \<le> maxStackedBuffers s)
   \<and> (byteLength s buffer \<noteq> 0 \<and> \<not> env (length (calls s))
        \<and> int (length (sendQueue s)) = maxStackedBuffers s \<longrightarrow>
      fst (trySendChunk env buffer s) = False
      \<and> destroyed (snd (trySendChunk env buffer s))
      \<and> calls (snd (trySendChunk env buffer s)) =
            calls s @ [Push (memory s buffer) False, Destroy (Some Max_Backpressure)]
      \<and> sendQueue (snd (trySendChunk env buffer s)) = (if destroyed s then sendQueue s else []))"
proof (intro conjI impI)
  assume "reachable s \<and> 0 \<le> maxStackedBuffers s"
  then have "reachable s" and nonneg: "0 \<le> maxStackedBuffers s" by simp_all
  from \<open>reachable s\<close>
  have "0 \<le> maxStackedBuffers s \<longrightarrow> int (length (sendQueue s)) \<le> maxStackedBuffers s"
  proof (rule reachable_invariant)
    show "0 \<le> maxStackedBuffers (constructor res config) \<longrightarrow>
          int (length (sendQueue (constructor res config))) \<le> maxStackedBuffers (constructor res config)"
      for res config
      by (simp add: constructor_def)
    show "0 \<le> maxStackedBuffers (step env i s) \<longrightarrow>
          int (length (sendQueue (step env i s))) \<le> maxStackedBuffers (step env i s)"
      if "0 \<le> maxStackedBuffers s \<longrightarrow> int (length (sendQueue s)) \<le> maxStackedBuffers s"
      for env i s
      using that
      by (rule step_preserves
            [where P = "\<lambda>s. 0 \<le> maxStackedBuffers s \<longrightarrow>
                           int (length (sendQueue s)) \<le> maxStackedBuffers s", rotated -1])
         (auto simp add: trySendChunk_eq)
  qed
  with nonneg show "int (length (sendQueue s)) \<le> maxStackedBuffers s" by simp
next
  assume full: "byteLength s buffer \<noteq> 0 \<and> \<not> env (length (calls s))
                \<and> int (length (sendQueue s)) = maxStackedBuffers s"
  then have eq: "trySendChunk env buffer s =
      (False, destroy (Some Max_Backpressure) (s\<lparr>calls := calls s @ [Push (memory s buffer) False]\<rparr>))"
    by (simp add: trySendChunk_eq byteLength_def)
  show "fst (trySendChunk env buffer s) = False" by (simp add: eq)
  show "destroyed (snd (trySendChunk env buffer s))" by (simp add: eq)
  show "calls (snd (trySendChunk env buffer s)) =
        calls s @ [Push (memory s buffer) False, Destroy (Some Max_Backpressure)]"
    by (simp add: eq)
  show "sendQueue (snd (trySendChunk env buffer s)) = (if destroyed s then sendQueue s else [])"
    by (simp add: eq)
qed

theorem queue_never_exceeds_threshold_witness:
  "let s = run never_ready [Source_Write 0 [65, 66], On_Data 0 False, On_Data 0 False]
             (constructor no_data (Some 2))
   in reachable s \<and> 0 \<le> maxStackedBuffers s \<and> byteLength s 0 \<noteq> 0
      \<and> \<not> never_ready (length (calls s))
      \<and> int (length (sendQueue s)) = maxStackedBuffers s
      \<and> int (length (sendQueue s)) \<le> maxStackedBuffers s
      \<and> destroyed (snd (trySendChunk never_ready 0 s))
      \<and> sendQueue (snd (trySendChunk never_ready 0 s)) = []"
proof -
  let ?s = "run never_ready [Source_Write 0 [65, 66], On_Data 0 False, On_Data 0 False]
              (constructor no_data (Some 2))"
  have reach: "reachable ?s" by (rule reachable_run) (rule reachable.init)
  have nonneg: "0 \<le> maxStackedBuffers ?s" by code_simp
  have nonempty: "byteLength ?s 0 \<noteq> 0" by code_simp
  have full: "int (length (sendQueue ?s)) = maxStackedBuffers ?s" by code_simp
  have live: "\<not> destroyed ?s" by code_simp
  show ?thesis
    unfolding Let_def
    using queue_never_exceeds_threshold [of ?s 0 never_ready] reach nonneg nonempty full live
    by (simp add: never_ready_def)
qed

subsection \<open>C4: overflow after one chunk more than the threshold\<close>

text \<open>
  Claim C4 says that no chunk arriving after the one that triggered the overflow is
  retained in the queue, and that the overflow error is raised only when a new chunk
  must be queued. With a threshold of 2 and a consumer that refuses every push, the
  third chunk destroys the stream with the overflow error, once; the fourth chunk,
  arriving afterwards, is appended to the emptied queue, since the callback does not
  look at the destroyed flag. And with a threshold of 1 and one chunk queued,
  \<^verbatim>\<open>_read\<close> raises the overflow error when its attempt to send that chunk again is
  refused, although no new chunk has arrived.
\<close>

theorem chunk_after_overflow_is_queued:
  "sendQueue (run never_ready (four_chunks @ [On_Data 0 False, On_Data 1 False])
      (constructor no_data (Some 2))) = [0, 1]
   \<and> destroyed (run never_ready (four_chunks @ [On_Data 0 False, On_Data 1 False, On_Data 2 False])
      (constructor no_data (Some 2)))
   \<and> overflows (calls (run never_ready
        (four_chunks @ [On_Data 0 False, On_Data 1 False, On_Data 2 False])
        (constructor no_data (Some 2)))) = 1
   \<and> sendQueue (run never_ready
        (four_chunks @ [On_Data 0 False, On_Data 1 False, On_Data 2 False, On_Data 3 False])
        (constructor no_data (Some 2))) = [3]
   \<and> fed no_data [Source_Write 0 chunk_A, On_Data 0 False, Read] = [chunk_A]
   \<and> sendQueue (run never_ready [Source_Write 0 chunk_A, On_Data 0 False] (constructor no_data (Some 1)))
       = [0]
   \<and> overflows (calls (run never_ready [Source_Write 0 chunk_A, On_Data 0 False]
        (constructor no_data (Some 1)))) = 0
   \<and> overflows (calls (step never_ready Read
        (run never_ready [Source_Write 0 chunk_A, On_Data 0 False] (constructor no_data (Some 1))))) = 1"
  by code_simp

text \<open>
  Claim C4, amended. For a threshold \<open>k\<close>, when the consumer never drains (every push
  is refused and no \<^verbatim>\<open>_read\<close> takes place) and the source feeds \<open>k + 1\<close> non-empty
  chunks to a new stream, the stream is destroyed, with exactly one \<^verbatim>\<open>destroy\<close> call
  carrying the overflow error; the queue is then empty and the consumer has accepted
  nothing. A further non-empty chunk that arrives after the triggering one is appended
  to the emptied queue, and the overflow error is still raised once. In the callback
  of the source the overflow error is raised only when a new chunk must be queued (it
  is not empty and its push is refused) while the queue already holds
  \<^verbatim>\<open>maxStackedBuffers\<close> chunks.
\<close>

theorem overflow_on_chunk_after_threshold:
  "((\<forall>n. \<not> env n) \<and> maxStackedBuffers (constructor res config) = int k
      \<and> length chunks = Suc k \<and> (\<forall>c\<in>set chunks. res (fst c) \<noteq> []) \<longrightarrow>
      destroyed (run env (map (\<lambda>(a, fin). On_Data a fin) chunks) (constructor res config))
      \<and> sendQueue (run env (map (\<lambda>(a, fin). On_Data a fin) chunks) (constructor res config)) = []
      \<and> overflows (calls (run env (map (\<lambda>(a, fin). On_Data a fin) chunks) (constructor res config))) = 1
      \<and> accepted (calls (run env (map (\<lambda>(a, fin). On_Data a fin) chunks) (constructor res config))) = []
      \<and> (res later \<noteq> [] \<longrightarrow>
           sendQueue (run env (map (\<lambda>(a, fin). On_Data a fin) (chunks @ [(later, fin)]))
             (constructor res config)) = [later]
           \<and> overflows (calls (run env (map (\<lambda>(a, fin). On_Data a fin) (chunks @ [(later, fin)]))
             (constructor res config))) = 1
           \<and> accepted (calls (run env (map (\<lambda>(a, fin). On_Data a fin) (chunks @ [(later, fin)]))
             (constructor res config))) = []))
   \<and> (overflows (calls (onData env chunk isLast s)) \<noteq> overflows (calls s) \<longrightarrow>
        byteLength s (Buffer_from chunk) \<noteq> 0 \<and> \<not> env (length (calls s))
        \<and> int (length (sendQueue s)) = maxStackedBuffers s)"
proof (intro conjI impI)
  assume hyp: "(\<forall>n. \<not> env n) \<and> maxStackedBuffers (constructor res config) = int k
      \<and> length chunks = Suc k \<and> (\<forall>c\<in>set chunks. res (fst c) \<noteq> [])"
  let ?over = "run env (map (\<lambda>(a, fin). On_Data a fin) chunks) (constructor res config)"
  have state: "destroyed ?over \<and> sendQueue ?over = [] \<and> overflows (calls ?over) = 1
      \<and> accepted (calls ?over) = [] \<and> memory ?over = res \<and> maxStackedBuffers ?over = int k"
    using hyp by (intro overflow_state) simp_all
  show "destroyed ?over" "sendQueue ?over = []" "overflows (calls ?over) = 1"
    "accepted (calls ?over) = []"
    using state by simp_all
  assume later: "res later \<noteq> []"
  have positive: "k \<noteq> 0" using hyp threshold_not_zero [of res config] by auto
  have send: "trySendChunk env later ?over =
      (False, ?over\<lparr>calls := calls ?over @ [Push (memory ?over later) False],
                       sendQueue := sendQueue ?over @ [later]\<rparr>)"
    using state later positive hyp by (simp add: trySendChunk_eq)
  have final: "run env (map (\<lambda>(a, fin). On_Data a fin) (chunks @ [(later, fin)])) (constructor res config)
      = onData env later fin ?over"
    by simp
  show "sendQueue (run env (map (\<lambda>(a, fin). On_Data a fin) (chunks @ [(later, fin)]))
             (constructor res config)) = [later]"
    unfolding final using state by (simp add: onData_def Buffer_from_def send Let_def)
  show "overflows (calls (run env (map (\<lambda>(a, fin). On_Data a fin) (chunks @ [(later, fin)]))
             (constructor res config))) = 1"
    unfolding final using state by (simp add: onData_def Buffer_from_def send Let_def)
  show "accepted (calls (run env (map (\<lambda>(a, fin). On_Data a fin) (chunks @ [(later, fin)]))
             (constructor res config))) = []"
    unfolding final using state by (simp add: onData_def Buffer_from_def send Let_def)
next
  assume "overflows (calls (onData env chunk isLast s)) \<noteq> overflows (calls s)"
  then show "byteLength s (Buffer_from chunk) \<noteq> 0" "\<not> env (length (calls s))"
    "int (length (sendQueue s)) = maxStackedBuffers s"
    by (auto simp add: onData_def trySendChunk_eq byteLength_def Let_def split: if_splits)
qed

theorem overflow_on_chunk_after_threshold_witness:
  "let chunks = [(0, False), (1, False), (2, True)];
       s = run never_ready (map (\<lambda>(a, fin). On_Data a fin) chunks) (constructor filled (Some 2));
       t = run never_ready (map (\<lambda>(a, fin). On_Data a fin) (chunks @ [(3, False)]))
             (constructor filled (Some 2));
       b = run never_ready [On_Data 0 False, On_Data 1 False] (constructor filled (Some 2))
   in (\<forall>n. \<not> never_ready n) \<and> maxStackedBuffers (constructor filled (Some 2)) = int 2
      \<and> length chunks = Suc 2 \<and> filled 0 \<noteq> [] \<and> filled 1 \<noteq> [] \<and> filled 2 \<noteq> [] \<and> filled 3 \<noteq> []
      \<and> destroyed s \<and> sendQueue s = [] \<and> overflows (calls s) = 1 \<and> accepted (calls s) = []
      \<and> sendQueue t = [3] \<and> overflows (calls t) = 1 \<and> accepted (calls t) = []
      \<and> overflows (calls (onData never_ready 2 False b)) \<noteq> overflows (calls b)
      \<and> byteLength b (Buffer_from 2) \<noteq> 0
      \<and> int (length (sendQueue b)) = maxStackedBuffers b"
proof -
  let ?chunks = "[(0, False), (1, False), (2, True)] :: (addr \<times> bool) list"
  let ?b = "run never_ready [On_Data 0 False, On_Data 1 False] (constructor filled (Some 2))"
  have never: "\<forall>n. \<not> never_ready n" by (simp add: never_ready_def)
  have threshold: "maxStackedBuffers (constructor filled (Some 2)) = int 2" by code_simp
  have count: "length ?chunks = Suc 2" by simp
  have bytes: "filled 0 \<noteq> []" "filled 1 \<noteq> []" "filled 2 \<noteq> []" "filled 3 \<noteq> []"
    by (simp_all add: filled_def chunk_A_def)
  then have all: "\<forall>c\<in>set ?chunks. filled (fst c) \<noteq> []" by simp
  have raised: "overflows (calls (onData never_ready 2 False ?b)) \<noteq> overflows (calls ?b)"
    by code_simp
  show ?thesis
    unfolding Let_def
    using overflow_on_chunk_after_threshold
            [of never_ready filled "Some 2" 2 ?chunks 3 False 2 False ?b]
      never threshold count bytes all raised
    by blast
qed

subsection \<open>C5: queued chunks and the memory of the source\<close>

text \<open>
  Claim C5 says that a chunk appended to the pending queue is a fresh copy, never a
  reference to the source's buffer. In the code the copy made by \<^verbatim>\<open>#createBufferCopy\<close>
  is what is pushed; what is appended to the queue is \<^verbatim>\<open>buffer\<close>, the view made by
  \<^verbatim>\<open>Buffer.from(chunk)\<close> on the source's memory. So when A is queued and the source then
  writes B into the same buffer, \<^verbatim>\<open>_read\<close> delivers B and A is lost; and when the source
  invalidates the buffer instead, \<^verbatim>\<open>_read\<close> takes the queued chunk for an empty one,
  drops it and ends the stream.
\<close>

theorem queued_chunk_shares_source_memory:
  "sendQueue (run (ready_from 1) [Source_Write 0 chunk_A, On_Data 0 False] (constructor no_data None))
     = [Buffer_from 0]
   \<and> fed no_data [Source_Write 0 chunk_A, On_Data 0 False, Source_Write 0 chunk_B, Read] = [chunk_A]
   \<and> accepted (calls (run (ready_from 1)
        [Source_Write 0 chunk_A, On_Data 0 False, Source_Write 0 chunk_B, Read]
        (constructor no_data None))) = [chunk_B]
   \<and> accepted (calls (run (ready_from 1)
        [Source_Write 0 chunk_A, On_Data 0 False, Source_Write 0 [], Read]
        (constructor no_data None))) = []
   \<and> eofs (calls (run (ready_from 1)
        [Source_Write 0 chunk_A, On_Data 0 False, Source_Write 0 [], Read]
        (constructor no_data None))) = 1"
  by code_simp

subsection \<open>C6: end of data waits for the queue\<close>




subsection \<open>C7: how often the end of data is signalled\<close>




subsection \<open>C8: chunks of zero length\<close>

text \<open>
  Claim C8. \<^verbatim>\<open>#trySendChunk\<close> on a buffer of zero length returns \<^verbatim>\<open>true\<close> and does
  nothing but call \<^verbatim>\<open>#tryEnd\<close>: no buffer is pushed, and the queue is left as it was
  or emptied by the close, never extended. In every reachable state no buffer of zero
  length has been pushed to the consumer.
\<close>

theorem empty_chunk_only_rechecks_close:
  "(byteLength s buffer = 0 \<longrightarrow>
      trySendChunk env buffer s = (True, tryEnd s)
      \<and> pushed (calls (snd (trySendChunk env buffer s))) = pushed (calls s)
      \<and> (sendQueue (snd (trySendChunk env buffer s)) = sendQueue s
           \<or> sendQueue (snd (trySendChunk env buffer s)) = []))
   \<and> (reachable s \<longrightarrow> [] \<notin> set (pushed (calls s)))"
proof (intro conjI impI)
  assume empty: "byteLength s buffer = 0"
  then show eq: "trySendChunk env buffer s = (True, tryEnd s)"
    by (simp add: trySendChunk_def)
  show "pushed (calls (snd (trySendChunk env buffer s))) = pushed (calls s)"
    by (simp add: eq)
  show "sendQueue (snd (trySendChunk env buffer s)) = sendQueue s
        \<or> sendQueue (snd (trySendChunk env buffer s)) = []"
    by (simp add: eq)
next
  assume "reachable s"
  then show "[] \<notin> set (pushed (calls s))"
  proof (rule reachable_invariant)
    show "[] \<notin> set (pushed (calls (constructor res config)))" for res config
      by (simp add: constructor_def)
    show "[] \<notin> set (pushed (calls (step env i s)))"
      if "[] \<notin> set (pushed (calls s))" for env i s
      using that
      by (rule step_preserves [where P = "\<lambda>s. [] \<notin> set (pushed (calls s))", rotated -1])
         (simp_all add: trySendChunk_eq)
  qed
qed

theorem empty_chunk_only_rechecks_close_witness:
  "let s = run always_ready [Source_Write 1 [65], On_Data 1 False] (constructor no_data None)
   in byteLength s 0 = 0 \<and> reachable s
      \<and> trySendChunk always_ready 0 s = (True, tryEnd s)
      \<and> pushed (calls s) = [[65]] \<and> [] \<notin> set (pushed (calls s))"
proof -
  let ?s = "run always_ready [Source_Write 1 [65], On_Data 1 False] (constructor no_data None)"
  have empty: "byteLength ?s 0 = 0" by code_simp
  have reach: "reachable ?s" by (rule reachable_run) (rule reachable.init)
  have log: "pushed (calls ?s) = [[65]]" by code_simp
  show ?thesis
    unfolding Let_def
    using empty_chunk_only_rechecks_close [of ?s 0 always_ready] empty reach log by blast
qed

subsection \<open>C9: the queue after destruction\<close>

text \<open>
  Claim C9 says that after destruction no ingestion call stores a chunk in the queue.
  The callback does not look at the destroyed flag: a non-empty chunk that arrives
  after the stream was destroyed, and is refused, is appended to the queue.
\<close>

theorem chunk_after_destruction_is_queued:
  "destroyed (run never_ready [Source_Write 0 chunk_A, Destroy_Request None] (constructor no_data None))
   \<and> sendQueue (run never_ready [Source_Write 0 chunk_A, Destroy_Request None]
        (constructor no_data None)) = []
   \<and> sendQueue (run never_ready [Source_Write 0 chunk_A, Destroy_Request None, On_Data 0 False]
        (constructor no_data None)) = [0]"
  by code_simp

text \<open>
  Claim C9, amended. The first \<^verbatim>\<open>destroy\<close> empties the pending queue, and a destroyed
  stream stays destroyed. Ingestion goes on after destruction: a non-empty chunk that
  is refused while the queue is below the threshold is appended to the queue.
\<close>

theorem destruction_clears_queue_but_ingestion_goes_on:
  "destroyed (destroy err s)
   \<and> (\<not> destroyed s \<longrightarrow> sendQueue (destroy err s) = [])
   \<and> (destroyed s \<longrightarrow> destroyed (step env i s))
   \<and> (destroyed s \<and> byteLength s (Buffer_from chunk) \<noteq> 0 \<and> \<not> env (length (calls s))
        \<and> int (length (sendQueue s)) \<noteq> maxStackedBuffers s \<longrightarrow>
      sendQueue (onData env chunk False s) = sendQueue s @ [Buffer_from chunk])"
proof (intro conjI impI)
  show "destroyed (destroy err s)" by simp
next
  assume "\<not> destroyed s"
  then show "sendQueue (destroy err s) = []" by simp
next
  assume "destroyed s"
  then show "destroyed (step env i s)" by (rule step_destroyed)
next
  assume "destroyed s \<and> byteLength s (Buffer_from chunk) \<noteq> 0 \<and> \<not> env (length (calls s))
        \<and> int (length (sendQueue s)) \<noteq> maxStackedBuffers s"
  then show "sendQueue (onData env chunk False s) = sendQueue s @ [Buffer_from chunk]"
    by (simp add: onData_def trySendChunk_eq byteLength_def)
qed

theorem destruction_clears_queue_but_ingestion_goes_on_witness:
  "let s = run never_ready [Source_Write 0 chunk_A, On_Data 0 False] (constructor no_data None);
       d = destroy None s
   in \<not> destroyed s \<and> sendQueue s = [0] \<and> sendQueue d = [] \<and> destroyed d
      \<and> byteLength d (Buffer_from 0) \<noteq> 0 \<and> \<not> never_ready (length (calls d))
      \<and> int (length (sendQueue d)) \<noteq> maxStackedBuffers d
      \<and> destroyed (step never_ready (On_Data 0 False) d)
      \<and> sendQueue (onData never_ready 0 False d) = sendQueue d @ [Buffer_from 0]"
proof -
  let ?s = "run never_ready [Source_Write 0 chunk_A, On_Data 0 False] (constructor no_data None)"
  let ?d = "destroy None ?s"
  have live: "\<not> destroyed ?s" by code_simp
  have queued: "sendQueue ?s = [0]" by code_simp
  have dead: "destroyed ?d" by simp
  have bytes: "byteLength ?d (Buffer_from 0) \<noteq> 0" by code_simp
  have refused: "\<not> never_ready (length (calls ?d))" by (simp add: never_ready_def)
  have room: "int (length (sendQueue ?d)) \<noteq> maxStackedBuffers ?d" by code_simp
  show ?thesis
    unfolding Let_def
    using destruction_clears_queue_but_ingestion_goes_on [of None ?s never_ready "On_Data 0 False" 0]
      destruction_clears_queue_but_ingestion_goes_on [of None ?d never_ready "On_Data 0 False" 0]
      live queued dead bytes refused room
    by blast
qed

subsection \<open>C10: the default threshold\<close>

text \<open>
  Claim C10. A configuration whose \<^verbatim>\<open>maxStackedBuffers\<close> is 0 or absent yields the
  threshold 25: the default replaces every falsy value, so the constructed threshold is
  never 0.
\<close>

theorem falsy_threshold_becomes_default:
  "maxStackedBuffers (constructor res (Some 0)) = 25
   \<and> maxStackedBuffers (constructor res None) = 25
   \<and> maxStackedBuffers (constructor res config) = (if falsy config then 25 else the config)
   \<and> maxStackedBuffers (constructor res config) \<noteq> 0"
  by (auto simp add: constructor_def or_default_def falsy_def split: option.splits)

theorem falsy_threshold_becomes_default_witness:
  "maxStackedBuffers (constructor no_data (Some 0)) = 25
   \<and> maxStackedBuffers (constructor no_data (Some 7)) = 7"
  using falsy_threshold_becomes_default [of no_data "Some 7"]
  by (simp add: falsy_def)

end
